theory Spec2Isabelle
  imports Main "HOL-Library.AList" "HOL-Library.Char_ord" "HOL-Library.List_Lexorder"
    "HOL-Library.Multiset"
begin

section \<open>Persisted hash snapshots and their comparison\<close>

text \<open>
  A shallow embedding of \<^verbatim>\<open>pkg/hash_persistence.go\<close> and of the target-list projection
  of the hash-differ binary.

  A Go \<^verbatim>\<open>map[K]V\<close> is modelled by an association list with pairwise distinct keys.
  The order of the list is the order in which a \<^verbatim>\<open>range\<close> over the map happens to
  visit its entries; Go leaves that order unspecified, so every order is possible and no
  theorem below may rely on a particular one. Lookup \<^verbatim>\<open>m[k]\<close> with the comma-ok form is
  \<^const>\<open>map_of\<close>. A nil map and an empty map behave alike under \<^verbatim>\<open>range\<close> and lookup and are
  both the empty list.

  Strings are byte strings; \<^verbatim>\<open>sort.Strings\<close> orders them bytewise, which is the
  lexicographic order on \<^typ>\<open>char list\<close>.

  Go's \<^verbatim>\<open>int\<close> has 64 bits here. The counters of this file count entries of maps and
  slices held in memory, so they stay far below the bound and are modelled by \<^typ>\<open>int\<close>.
\<close>

subsection \<open>Data model\<close>

type_synonym ('k, 'v) gomap = "('k \<times> 'v) list"

text \<open>\<^verbatim>\<open>time.Time\<close> is represented by the instant it denotes (nanoseconds since the Unix epoch).\<close>

type_synonym time = int

record HashMetadata =
  TargetsPattern :: string
  WorkspacePath :: string
  TotalTargets :: int

record PersistedHashData =
  GitCommitSha :: string
  Timestamp :: time
  BazelRelease :: string
  TargetHashes :: "(string, (string, string) gomap) gomap"
  Metadata :: HashMetadata

record HashDiff =
  Label :: string
  Configuration :: string
  Status :: string
  BeforeHash :: string
  AfterHash :: string

record HashComparisonSummary =
  TotalChanged :: int
  TotalAdded :: int
  TotalRemoved :: int
  AffectedTargets :: "string list"

record HashComparisonResult =
  BeforeCommit :: string
  AfterCommit :: string
  Differences :: "HashDiff list"
  Summary :: HashComparisonSummary

datatype error =
    OpenError string
  | DecodeError string
  | LoadBeforeError error
  | LoadAfterError error
  | HashError string string
  | CreateError string
  | EncodeError string
  | WriteError
  | ParseLabelError string
  | NilMapPanic

subsection \<open>The comparison loops of \<^verbatim>\<open>CompareHashFiles\<close>\<close>

text \<open>
  The two local variables the loops update: the slice \<^verbatim>\<open>differences\<close> and the map
  \<^verbatim>\<open>affectedTargetsSet\<close>. Only the value \<^verbatim>\<open>true\<close> is ever stored in that map, so it is
  represented by the list of its keys.
\<close>

record cmp_state =
  differences :: "HashDiff list"
  affectedTargetsSet :: "string list"

text \<open>\<^verbatim>\<open>differences = append(differences, d); affectedTargetsSet[label] = true\<close>\<close>

definition emit :: "HashDiff \<Rightarrow> cmp_state \<Rightarrow> cmp_state" where
  "emit d s = \<lparr>differences = differences s @ [d],
              affectedTargetsSet = List.insert (Label d) (affectedTargetsSet s)\<rparr>"

text \<open>Lines 164--172: the label is absent from the after file.\<close>

definition removed_entirely_body :: "string \<Rightarrow> string \<times> string \<Rightarrow> cmp_state \<Rightarrow> cmp_state" where
  "removed_entirely_body label = (\<lambda>(config, beforeHash) s.
     emit \<lparr>Label = label, Configuration = config, Status = ''removed'',
           BeforeHash = beforeHash, AfterHash = ''''\<rparr> s)"

text \<open>Lines 177--199: each configuration of a label present in both files.\<close>

definition check_config_body ::
  "string \<Rightarrow> (string, string) gomap \<Rightarrow> string \<times> string \<Rightarrow> cmp_state \<Rightarrow> cmp_state" where
  "check_config_body label afterConfigs = (\<lambda>(config, beforeHash) s.
     (case map_of afterConfigs config of
        None \<Rightarrow>
          emit \<lparr>Label = label, Configuration = config, Status = ''removed'',
                BeforeHash = beforeHash, AfterHash = ''''\<rparr> s
      | Some afterHash \<Rightarrow>
          if beforeHash \<noteq> afterHash then
            emit \<lparr>Label = label, Configuration = config, Status = ''changed'',
                  BeforeHash = beforeHash, AfterHash = afterHash\<rparr> s
          else s))"

text \<open>Lines 202--212: configurations added to a label present in both files.\<close>

definition added_config_body ::
  "string \<Rightarrow> (string, string) gomap \<Rightarrow> string \<times> string \<Rightarrow> cmp_state \<Rightarrow> cmp_state" where
  "added_config_body label beforeConfigs = (\<lambda>(config, afterHash) s.
     (case map_of beforeConfigs config of
        None \<Rightarrow>
          emit \<lparr>Label = label, Configuration = config, Status = ''added'',
                BeforeHash = '''', AfterHash = afterHash\<rparr> s
      | Some _ \<Rightarrow> s))"

text \<open>Lines 160--213: the loop over the before file.\<close>

definition before_label_body ::
  "(string, (string, string) gomap) gomap \<Rightarrow> string \<times> (string, string) gomap \<Rightarrow>
   cmp_state \<Rightarrow> cmp_state" where
  "before_label_body afterHashes = (\<lambda>(label, beforeConfigs) s.
     (case map_of afterHashes label of
        None \<Rightarrow> fold (removed_entirely_body label) beforeConfigs s
      | Some afterConfigs \<Rightarrow>
          fold (added_config_body label beforeConfigs) afterConfigs
            (fold (check_config_body label afterConfigs) beforeConfigs s)))"

text \<open>Lines 218--226: every configuration of a label that is new in the after file.\<close>

definition new_target_body :: "string \<Rightarrow> string \<times> string \<Rightarrow> cmp_state \<Rightarrow> cmp_state" where
  "new_target_body label = (\<lambda>(config, afterHash) s.
     emit \<lparr>Label = label, Configuration = config, Status = ''added'',
           BeforeHash = '''', AfterHash = afterHash\<rparr> s)"

text \<open>Lines 216--228: the loop over the after file.\<close>

definition after_label_body ::
  "(string, (string, string) gomap) gomap \<Rightarrow> string \<times> (string, string) gomap \<Rightarrow>
   cmp_state \<Rightarrow> cmp_state" where
  "after_label_body beforeHashes = (\<lambda>(label, afterConfigs) s.
     (case map_of beforeHashes label of
        None \<Rightarrow> fold (new_target_body label) afterConfigs s
      | Some _ \<Rightarrow> s))"

text \<open>Lines 156--228.\<close>

definition compare_loops ::
  "(string, (string, string) gomap) gomap \<Rightarrow> (string, (string, string) gomap) gomap \<Rightarrow>
   cmp_state" where
  "compare_loops beforeHashes afterHashes =
     fold (after_label_body beforeHashes) afterHashes
       (fold (before_label_body afterHashes) beforeHashes
          \<lparr>differences = [], affectedTargetsSet = []\<rparr>)"

text \<open>
  Lines 241--250: the \<^verbatim>\<open>switch\<close> on the status string; a status that matches no case
  leaves the summary unchanged.
\<close>

definition tally_body :: "HashDiff \<Rightarrow> HashComparisonSummary \<Rightarrow> HashComparisonSummary" where
  "tally_body diff summary =
     (if Status diff = ''added'' then summary\<lparr>TotalAdded := TotalAdded summary + 1\<rparr>
      else if Status diff = ''removed'' then summary\<lparr>TotalRemoved := TotalRemoved summary + 1\<rparr>
      else if Status diff = ''changed'' then summary\<lparr>TotalChanged := TotalChanged summary + 1\<rparr>
      else summary)"

text \<open>
  Lines 230--257. The \<^verbatim>\<open>range\<close> over \<^verbatim>\<open>affectedTargetsSet\<close> visits its keys in an
  unspecified order; \<open>rangeOrder\<close> is that order as chosen by the runtime, a rearrangement
  of the key list. \<^verbatim>\<open>sort.Strings\<close> then sorts the collected slice.
\<close>

definition summarize :: "(string list \<Rightarrow> string list) \<Rightarrow> cmp_state \<Rightarrow> HashComparisonSummary" where
  "summarize rangeOrder s =
     fold tally_body (differences s)
       \<lparr>TotalChanged = 0, TotalAdded = 0, TotalRemoved = 0,
        AffectedTargets = sort (rangeOrder (affectedTargetsSet s))\<rparr>"

definition compare_loaded ::
  "(string list \<Rightarrow> string list) \<Rightarrow> PersistedHashData \<Rightarrow> PersistedHashData \<Rightarrow> HashComparisonResult" where
  "compare_loaded rangeOrder beforeData afterData =
     (let s = compare_loops (TargetHashes beforeData) (TargetHashes afterData) in
      \<lparr>BeforeCommit = GitCommitSha beforeData,
       AfterCommit = GitCommitSha afterData,
       Differences = differences s,
       Summary = summarize rangeOrder s\<rparr>)"


subsection \<open>Files and the JSON decoder\<close>

text \<open>
  \<^verbatim>\<open>os.Open\<close>, \<^verbatim>\<open>os.Create\<close> and the \<^verbatim>\<open>encoding/json\<close> encoder and decoder are not part
  of the repository. They are represented by what the code observes of them.

  A file that can be opened either makes \<^verbatim>\<open>Decode\<close> return an error (it does not start
  with a JSON value, the value is neither an object nor \<^verbatim>\<open>null\<close>, or a member has a value
  that does not fit the type of its field) or holds a JSON object, given by the value that
  the decoder finds for each field of the struct, as matched through the \<^verbatim>\<open>json:"..."\<close>
  tags. A map value is the map that the decoder ends with, so its keys are distinct (of a
  repeated key the last occurrence wins). \<^const>\<open>None\<close> stands for a member that is missing
  from the object or is \<^verbatim>\<open>null\<close>: the decoder then leaves the field at the zero value of
  its type and reports no error. A file that holds just \<^verbatim>\<open>null\<close> behaves as the object
  without members.
\<close>

record metadata_members =
  targets_pattern :: "string option"
  workspace_path :: "string option"
  total_targets :: "int option"

record document =
  git_commit_sha :: "string option"
  timestamp :: "time option"
  bazel_release :: "string option"
  target_hashes :: "(string, (string, string) gomap) gomap option"
  metadata :: "metadata_members option"

datatype file_content = Undecodable | Document document

text \<open>
  \<open>contents\<close>: what \<^verbatim>\<open>os.Open\<close> finds at a path (\<^const>\<open>None\<close>: the file cannot be
  opened); \<open>creatable\<close>: \<^verbatim>\<open>os.Create\<close> succeeds at the path; \<open>storable\<close>: the encoder's
  write to the created file succeeds.
\<close>

record filesystem =
  contents :: "string \<Rightarrow> file_content option"
  creatable :: "string \<Rightarrow> bool"
  storable :: "string \<Rightarrow> bool"

text \<open>The zero \<^verbatim>\<open>time.Time\<close>: January 1, year 1, 00:00:00 UTC.\<close>

definition zero_time :: time where
  "zero_time = - 62135596800 * 1000000000"

definition field_or :: "'a \<Rightarrow> 'a option \<Rightarrow> 'a" where
  "field_or zero member = (case member of None \<Rightarrow> zero | Some v \<Rightarrow> v)"

definition decode_metadata :: "metadata_members \<Rightarrow> HashMetadata" where
  "decode_metadata m =
     \<lparr>TargetsPattern = field_or '''' (targets_pattern m),
      WorkspacePath = field_or '''' (workspace_path m),
      TotalTargets = field_or 0 (total_targets m)\<rparr>"

definition decode_document :: "document \<Rightarrow> PersistedHashData" where
  "decode_document doc =
     \<lparr>GitCommitSha = field_or '''' (git_commit_sha doc),
      Timestamp = field_or zero_time (timestamp doc),
      BazelRelease = field_or '''' (bazel_release doc),
      TargetHashes = field_or [] (target_hashes doc),
      Metadata = decode_metadata
        (field_or \<lparr>targets_pattern = None, workspace_path = None, total_targets = None\<rparr>
           (metadata doc))\<rparr>"

text \<open>The encoder writes every field of both structs (no tag has \<^verbatim>\<open>omitempty\<close>).\<close>

definition encode_document :: "PersistedHashData \<Rightarrow> document" where
  "encode_document d =
     \<lparr>git_commit_sha = Some (GitCommitSha d),
      timestamp = Some (Timestamp d),
      bazel_release = Some (BazelRelease d),
      target_hashes = Some (TargetHashes d),
      metadata = Some \<lparr>targets_pattern = Some (TargetsPattern (Metadata d)),
                       workspace_path = Some (WorkspacePath (Metadata d)),
                       total_targets = Some (TotalTargets (Metadata d))\<rparr>\<rparr>"

subsection \<open>\<^verbatim>\<open>LoadPersistedHashes\<close> and \<^verbatim>\<open>CompareHashFiles\<close>\<close>

definition LoadPersistedHashes :: "filesystem \<Rightarrow> string \<Rightarrow> error + PersistedHashData" where
  "LoadPersistedHashes fs filePath =
     (case contents fs filePath of
        None \<Rightarrow> Inl (OpenError filePath)
      | Some Undecodable \<Rightarrow> Inl (DecodeError filePath)
      | Some (Document doc) \<Rightarrow> Inr (decode_document doc))"

definition CompareHashFiles ::
  "(string list \<Rightarrow> string list) \<Rightarrow> filesystem \<Rightarrow> string \<Rightarrow> string \<Rightarrow>
   error + HashComparisonResult" where
  "CompareHashFiles rangeOrder fs beforeFile afterFile =
     (case LoadPersistedHashes fs beforeFile of
        Inl err \<Rightarrow> Inl (LoadBeforeError err)
      | Inr beforeData \<Rightarrow>
          (case LoadPersistedHashes fs afterFile of
             Inl err \<Rightarrow> Inl (LoadAfterError err)
           | Inr afterData \<Rightarrow> Inr (compare_loaded rangeOrder beforeData afterData)))"

subsection \<open>\<^verbatim>\<open>GetAffectedTargetLabels\<close>\<close>

text \<open>
  \<^verbatim>\<open>gazelle_label.Parse\<close> belongs to another module and is the parameter \<open>parse\<close>.
  The map \<^verbatim>\<open>seenLabels\<close> only ever stores \<^verbatim>\<open>true\<close> and is the list of its keys.
\<close>

fun get_labels_loop ::
  "(string \<Rightarrow> 'e + 'l) \<Rightarrow> HashDiff list \<Rightarrow> 'l list \<Rightarrow> string list \<Rightarrow> error + 'l list" where
  "get_labels_loop parse [] labels seenLabels = Inr labels"
| "get_labels_loop parse (diff # rest) labels seenLabels =
     (if Label diff \<notin> set seenLabels then
        (case parse (Label diff) of
           Inl err \<Rightarrow> Inl (ParseLabelError (Label diff))
         | Inr label \<Rightarrow>
             get_labels_loop parse rest (labels @ [label]) (List.insert (Label diff) seenLabels))
      else get_labels_loop parse rest labels seenLabels)"

definition GetAffectedTargetLabels ::
  "(string \<Rightarrow> 'e + 'l) \<Rightarrow> HashComparisonResult \<Rightarrow> error + 'l list" where
  "GetAffectedTargetLabels parse result = get_labels_loop parse (Differences result) [] []"

subsection \<open>\<^verbatim>\<open>outputTargetList\<close>\<close>

text \<open>
  The output stream: the strings written to it so far, and how many further writes it
  accepts before a write fails.
\<close>

record sink =
  written :: "string list"
  room :: nat

definition Fprintln :: "sink \<Rightarrow> string \<Rightarrow> sink option" where
  "Fprintln output target =
     (if room output = 0 then None
      else Some \<lparr>written = written output @ [target @ [CHR 0x0A]], room = room output - 1\<rparr>)"

text \<open>
  Modelled from the spec: the field \<^verbatim>\<open>AfterTargets\<close> of \<^verbatim>\<open>HashComparisonSummary\<close>, which
  \<^verbatim>\<open>outputTargetList\<close> reads, is neither declared nor filled in \<^verbatim>\<open>pkg/hash_persistence.go\<close>.
  The spec: a label is included under the negative branch of the include-removed toggle only
  if it has at least one configuration present in the after-snapshot's map for that label.
\<close>

definition AfterTargets ::
  "(string, (string, string) gomap) gomap \<Rightarrow> string \<Rightarrow> bool" where
  "AfterTargets afterHashes label =
     (case map_of afterHashes label of None \<Rightarrow> False | Some afterConfigs \<Rightarrow> afterConfigs \<noteq> [])"

text \<open>Lines 153--159 of the hash-differ binary; \<open>afterTargets\<close> is the lookup in that field.\<close>

fun write_targets :: "(string \<Rightarrow> bool) \<Rightarrow> bool \<Rightarrow> string list \<Rightarrow> sink \<Rightarrow> error + sink" where
  "write_targets afterTargets includeRemoved [] output = Inr output"
| "write_targets afterTargets includeRemoved (target # rest) output =
     (if afterTargets target \<or> includeRemoved then
        (case Fprintln output target of
           None \<Rightarrow> Inl WriteError
         | Some output' \<Rightarrow> write_targets afterTargets includeRemoved rest output')
      else write_targets afterTargets includeRemoved rest output)"

text \<open>\<open>stdout\<close> is \<^verbatim>\<open>os.Stdout\<close>; \<open>create\<close> is \<^verbatim>\<open>os.Create\<close>, \<^const>\<open>None\<close> when it fails.\<close>

definition outputTargetList ::
  "sink \<Rightarrow> (string \<Rightarrow> sink option) \<Rightarrow> (string \<Rightarrow> bool) \<Rightarrow> HashComparisonResult \<Rightarrow>
   string \<Rightarrow> bool \<Rightarrow> error + sink" where
  "outputTargetList stdout create afterTargets result outputFile includeRemoved =
     (case (if outputFile = '''' then Some stdout else create outputFile) of
        None \<Rightarrow> Inl (CreateError outputFile)
      | Some output \<Rightarrow>
          write_targets afterTargets includeRemoved (AffectedTargets (Summary result)) output)"

subsection \<open>\<^verbatim>\<open>PersistHashes\<close>\<close>

text \<open>
  \<^verbatim>\<open>QueryResults\<close>, its \<^verbatim>\<open>MatchingTargets\<close> and \<^verbatim>\<open>TargetHashCache\<close>, and the types of
  labels and configurations are declared elsewhere in the package; only the operations that
  \<^verbatim>\<open>PersistHashes\<close> calls are kept, as parameters. \<open>Hash\<close> returns the digest bytes, or
  \<^const>\<open>None\<close> where the cache returns an error.
\<close>

record ('l, 'c) QueryResults =
  Labels :: "'l list"
  ConfigurationsFor :: "'l \<Rightarrow> 'c list"
  LabelString :: "'l \<Rightarrow> string"
  ConfigurationString :: "'c \<Rightarrow> string"
  Hash :: "'l \<Rightarrow> 'c \<Rightarrow> string option"
  QueryBazelRelease :: string

text \<open>\<^verbatim>\<open>hex.EncodeToString\<close>: two lower-case hexadecimal digits for each byte.\<close>

definition hex_digit :: "nat \<Rightarrow> char" where
  "hex_digit n = ''0123456789abcdef'' ! n"

definition EncodeToString :: "string \<Rightarrow> string" where
  "EncodeToString bytes =
     concat (map (\<lambda>b. [hex_digit (of_char b div 16), hex_digit (of_char b mod 16)]) bytes)"

text \<open>
  Lines 49--59. An assignment \<^verbatim>\<open>targetHashes[labelStr][k] = v\<close> panics when
  \<^verbatim>\<open>targetHashes[labelStr]\<close> is nil.
\<close>

fun persist_configs ::
  "('l, 'c) QueryResults \<Rightarrow> 'l \<Rightarrow> 'c list \<Rightarrow>
   (string, (string, string) gomap) gomap \<times> int \<Rightarrow>
   error + ((string, (string, string) gomap) gomap \<times> int)" where
  "persist_configs qr label [] st = Inr st"
| "persist_configs qr label (config # rest) (targetHashes, totalTargets) =
     (case Hash qr label config of
        None \<Rightarrow> Inl (HashError (LabelString qr label) (ConfigurationString qr config))
      | Some hash \<Rightarrow>
          (case map_of targetHashes (LabelString qr label) of
             None \<Rightarrow> Inl NilMapPanic
           | Some inner \<Rightarrow>
               persist_configs qr label rest
                 (AList.update (LabelString qr label)
                    (AList.update (ConfigurationString qr config) (EncodeToString hash) inner)
                    targetHashes,
                  totalTargets + 1)))"

text \<open>Lines 44--60.\<close>

fun persist_labels ::
  "('l, 'c) QueryResults \<Rightarrow> 'l list \<Rightarrow>
   (string, (string, string) gomap) gomap \<times> int \<Rightarrow>
   error + ((string, (string, string) gomap) gomap \<times> int)" where
  "persist_labels qr [] st = Inr st"
| "persist_labels qr (label # rest) (targetHashes, totalTargets) =
     (case persist_configs qr label (ConfigurationsFor qr label)
             (AList.update (LabelString qr label) [] targetHashes, totalTargets) of
        Inl err \<Rightarrow> Inl err
      | Inr st \<Rightarrow> persist_labels qr rest st)"

text \<open>
  \<open>now\<close> is the value of \<^verbatim>\<open>time.Now()\<close>, \<open>workspacePath\<close> is \<^verbatim>\<open>context.WorkspacePath\<close>.
  The result is the returned error, if any, and the file system afterwards. A file that was
  created but not completely written does not decode.
\<close>

definition PersistHashes ::
  "filesystem \<Rightarrow> time \<Rightarrow> string \<Rightarrow> string \<Rightarrow> ('l, 'c) QueryResults \<Rightarrow> string \<Rightarrow> string \<Rightarrow>
   error option \<times> filesystem" where
  "PersistHashes fs now filePath gitCommitSha queryResults workspacePath targetsPattern =
     (case persist_labels queryResults (Labels queryResults) ([], 0) of
        Inl err \<Rightarrow> (Some err, fs)
      | Inr (targetHashes, totalTargets) \<Rightarrow>
          (let persistedData =
             \<lparr>GitCommitSha = gitCommitSha,
              Timestamp = now,
              BazelRelease = QueryBazelRelease queryResults,
              TargetHashes = targetHashes,
              Metadata = \<lparr>TargetsPattern = targetsPattern,
                          WorkspacePath = workspacePath,
                          TotalTargets = totalTargets\<rparr>\<rparr>
           in if \<not> creatable fs filePath then (Some (CreateError filePath), fs)
              else if \<not> storable fs filePath then
                (Some (EncodeError filePath),
                 fs\<lparr>contents := (contents fs)(filePath \<mapsto> Undecodable)\<rparr>)
              else
                (None,
                 fs\<lparr>contents := (contents fs)(filePath \<mapsto> Document (encode_document persistedData))\<rparr>)))"

section \<open>Notions used to state the properties\<close>

subsection \<open>Snapshots as mappings\<close>

text \<open>
  The invariant of the Go map type: keys are pairwise distinct, in the outer map and in
  every inner map.
\<close>

definition wf_hashes :: "(string, (string, string) gomap) gomap \<Rightarrow> bool" where
  "wf_hashes m \<longleftrightarrow> distinct (map fst m) \<and> list_all (\<lambda>(l, cs). distinct (map fst cs)) m"

text \<open>The hash a snapshot holds for a (label, configuration) pair, if any.\<close>

definition lookup2 ::
  "(string, (string, string) gomap) gomap \<Rightarrow> string \<Rightarrow> string \<Rightarrow> string option" where
  "lookup2 m l c = (case map_of m l of None \<Rightarrow> None | Some cs \<Rightarrow> map_of cs c)"

text \<open>
  The mapping that an association list stands for: two lists with the same \<open>hashes_map\<close>
  are the same Go map, visited in different orders.
\<close>

definition hashes_map ::
  "(string, (string, string) gomap) gomap \<Rightarrow> string \<Rightarrow> (string \<Rightarrow> string option) option" where
  "hashes_map m l = map_option map_of (map_of m l)"

text \<open>Every hash of the snapshot is a non-empty string.\<close>

definition hashes_present :: "(string, (string, string) gomap) gomap \<Rightarrow> bool" where
  "hashes_present m \<longleftrightarrow> list_all (\<lambda>(l, cs). list_all (\<lambda>(c, h). h \<noteq> '''') cs) m"

text \<open>
  The order in which a \<^verbatim>\<open>range\<close> visits the keys of a map is some rearrangement of the
  keys.
\<close>

definition is_range_order :: "(string list \<Rightarrow> string list) \<Rightarrow> bool" where
  "is_range_order f \<longleftrightarrow> (\<forall>ks. mset (f ks) = mset ks)"

subsection \<open>The records of a pair\<close>

definition at_pair :: "string \<Rightarrow> string \<Rightarrow> HashDiff \<Rightarrow> bool" where
  "at_pair l c d \<longleftrightarrow> Label d = l \<and> Configuration d = c"

text \<open>
  The records that the two hashes of one (label, configuration) pair call for: none when
  the pair is in neither snapshot or has the same hash in both, and one otherwise.
\<close>

definition expected_diff ::
  "string \<Rightarrow> string \<Rightarrow> string option \<Rightarrow> string option \<Rightarrow> HashDiff list" where
  "expected_diff l c bo ao =
     (case bo of
        None \<Rightarrow>
          (case ao of
             None \<Rightarrow> []
           | Some ah \<Rightarrow> [\<lparr>Label = l, Configuration = c, Status = ''added'',
                          BeforeHash = '''', AfterHash = ah\<rparr>])
      | Some bh \<Rightarrow>
          (case ao of
             None \<Rightarrow> [\<lparr>Label = l, Configuration = c, Status = ''removed'',
                       BeforeHash = bh, AfterHash = ''''\<rparr>]
           | Some ah \<Rightarrow>
               if bh \<noteq> ah
               then [\<lparr>Label = l, Configuration = c, Status = ''changed'',
                      BeforeHash = bh, AfterHash = ah\<rparr>]
               else []))"

text \<open>The labels of a list, each kept at its first occurrence.\<close>

primrec first_occurrences :: "'a list \<Rightarrow> 'a list" where
  "first_occurrences [] = []"
| "first_occurrences (x # xs) = x # filter (\<lambda>y. y \<noteq> x) (first_occurrences xs)"

text \<open>The line that \<^verbatim>\<open>fmt.Fprintln\<close> writes for a target.\<close>

definition line :: "string \<Rightarrow> string" where
  "line target = target @ [CHR 0x0A]"

text \<open>
  The entry of \<^verbatim>\<open>targetHashes\<close> that \<^verbatim>\<open>PersistHashes\<close> builds for a label whose
  configurations all have a hash.
\<close>

definition hash_entry :: "('l, 'c) QueryResults \<Rightarrow> 'l \<Rightarrow> string \<times> (string, string) gomap" where
  "hash_entry qr label =
     (LabelString qr label,
      map (\<lambda>config. (ConfigurationString qr config,
                      EncodeToString (case Hash qr label config of None \<Rightarrow> [] | Some hash \<Rightarrow> hash)))
          (ConfigurationsFor qr label))"

definition hashes_available :: "('l, 'c) QueryResults \<Rightarrow> bool" where
  "hashes_available qr \<longleftrightarrow>
     list_all (\<lambda>label. list_all (\<lambda>config. Hash qr label config \<noteq> None)
                          (ConfigurationsFor qr label))
              (Labels qr)"

definition strings_distinct :: "('l, 'c) QueryResults \<Rightarrow> bool" where
  "strings_distinct qr \<longleftrightarrow>
     distinct (map (LabelString qr) (Labels qr)) \<and>
     list_all (\<lambda>label. distinct (map (ConfigurationString qr) (ConfigurationsFor qr label)))
              (Labels qr)"

subsection \<open>The records each loop appends\<close>

text \<open>
  Each loop body appends a list of records that does not depend on the state; the
  following functions give that list for each body, and \<open>all_recs\<close> for the two outer loops
  together.
\<close>

definition removed_recs :: "string \<Rightarrow> string \<times> string \<Rightarrow> HashDiff list" where
  "removed_recs label = (\<lambda>(config, beforeHash).
     [\<lparr>Label = label, Configuration = config, Status = ''removed'',
       BeforeHash = beforeHash, AfterHash = ''''\<rparr>])"

definition check_recs ::
  "string \<Rightarrow> (string, string) gomap \<Rightarrow> string \<times> string \<Rightarrow> HashDiff list" where
  "check_recs label afterConfigs = (\<lambda>(config, beforeHash).
     (case map_of afterConfigs config of
        None \<Rightarrow> [\<lparr>Label = label, Configuration = config, Status = ''removed'',
                  BeforeHash = beforeHash, AfterHash = ''''\<rparr>]
      | Some afterHash \<Rightarrow>
          if beforeHash \<noteq> afterHash then
            [\<lparr>Label = label, Configuration = config, Status = ''changed'',
              BeforeHash = beforeHash, AfterHash = afterHash\<rparr>]
          else []))"

definition added_recs ::
  "string \<Rightarrow> (string, string) gomap \<Rightarrow> string \<times> string \<Rightarrow> HashDiff list" where
  "added_recs label beforeConfigs = (\<lambda>(config, afterHash).
     (case map_of beforeConfigs config of
        None \<Rightarrow> [\<lparr>Label = label, Configuration = config, Status = ''added'',
                  BeforeHash = '''', AfterHash = afterHash\<rparr>]
      | Some _ \<Rightarrow> []))"

definition new_recs :: "string \<Rightarrow> string \<times> string \<Rightarrow> HashDiff list" where
  "new_recs label = (\<lambda>(config, afterHash).
     [\<lparr>Label = label, Configuration = config, Status = ''added'',
       BeforeHash = '''', AfterHash = afterHash\<rparr>])"

definition before_label_recs ::
  "(string, (string, string) gomap) gomap \<Rightarrow> string \<times> (string, string) gomap \<Rightarrow>
   HashDiff list" where
  "before_label_recs afterHashes = (\<lambda>(label, beforeConfigs).
     (case map_of afterHashes label of
        None \<Rightarrow> concat (map (removed_recs label) beforeConfigs)
      | Some afterConfigs \<Rightarrow>
          concat (map (check_recs label afterConfigs) beforeConfigs) @
          concat (map (added_recs label beforeConfigs) afterConfigs)))"

definition after_label_recs ::
  "(string, (string, string) gomap) gomap \<Rightarrow> string \<times> (string, string) gomap \<Rightarrow>
   HashDiff list" where
  "after_label_recs beforeHashes = (\<lambda>(label, afterConfigs).
     (case map_of beforeHashes label of
        None \<Rightarrow> concat (map (new_recs label) afterConfigs)
      | Some _ \<Rightarrow> []))"

definition all_recs ::
  "(string, (string, string) gomap) gomap \<Rightarrow> (string, (string, string) gomap) gomap \<Rightarrow>
   HashDiff list" where
  "all_recs beforeHashes afterHashes =
     concat (map (before_label_recs afterHashes) beforeHashes) @
     concat (map (after_label_recs beforeHashes) afterHashes)"

subsection \<open>Example snapshots\<close>

text \<open>
  The first scenario of the specification: \<^verbatim>\<open>//a:x\<close> changes its hash and \<^verbatim>\<open>//b:y\<close> is
  new. The after file is visited with \<^verbatim>\<open>//b:y\<close> first.
\<close>

definition ex_before :: PersistedHashData where
  "ex_before =
     \<lparr>GitCommitSha = ''b0'', Timestamp = 0, BazelRelease = ''release 7.0.0'',
      TargetHashes = [(''//a:x'', [(''c1'', ''aaa'')])],
      Metadata = \<lparr>TargetsPattern = ''//...'', WorkspacePath = ''/w'', TotalTargets = 1\<rparr>\<rparr>"

definition ex_after :: PersistedHashData where
  "ex_after =
     \<lparr>GitCommitSha = ''a1'', Timestamp = 1, BazelRelease = ''release 7.0.0'',
      TargetHashes = [(''//b:y'', [(''c1'', ''ccc'')]), (''//a:x'', [(''c1'', ''bbb'')])],
      Metadata = \<lparr>TargetsPattern = ''//...'', WorkspacePath = ''/w'', TotalTargets = 2\<rparr>\<rparr>"

text \<open>A second before file: \<^verbatim>\<open>//a:x\<close> under two configurations, and \<^verbatim>\<open>//c:z\<close>.\<close>

definition ex_two_configs :: PersistedHashData where
  "ex_two_configs =
     \<lparr>GitCommitSha = ''c2'', Timestamp = 2, BazelRelease = ''release 7.0.0'',
      TargetHashes = [(''//a:x'', [(''c1'', ''aaa''), (''c2'', ''ddd'')]),
                      (''//c:z'', [(''c1'', ''eee'')])],
      Metadata = \<lparr>TargetsPattern = ''//...'', WorkspacePath = ''/w'', TotalTargets = 3\<rparr>\<rparr>"

text \<open>The after file of the first scenario, visited with \<^verbatim>\<open>//a:x\<close> first.\<close>

definition ex_after_reordered :: PersistedHashData where
  "ex_after_reordered =
     ex_after\<lparr>TargetHashes := [(''//a:x'', [(''c1'', ''bbb'')]), (''//b:y'', [(''c1'', ''ccc'')])]\<rparr>"

text \<open>The JSON object \<^verbatim>\<open>{}\<close>: no member for any field.\<close>

definition empty_object :: document where
  "empty_object =
     \<lparr>git_commit_sha = None, timestamp = None, bazel_release = None,
      target_hashes = None, metadata = None\<rparr>"

text \<open>
  A file system with the two files of the first scenario, a file holding \<^verbatim>\<open>{}\<close> and a
  file that is not JSON; no other path can be opened.
\<close>

definition ex_fs :: filesystem where
  "ex_fs =
     \<lparr>contents = map_of
        [(''before.json'', Document (encode_document ex_before)),
         (''after.json'', Document (encode_document ex_after)),
         (''empty.json'', Document empty_object),
         (''broken.json'', Undecodable)],
      creatable = (\<lambda>path. True),
      storable = (\<lambda>path. True)\<rparr>"

text \<open>
  Query results with three labels: \<^verbatim>\<open>//a:x\<close> under two configurations, \<^verbatim>\<open>//b:y\<close>
  under none and \<^verbatim>\<open>//c:z\<close> under one. Labels and configurations are given by their text;
  every digest is the single byte \<^verbatim>\<open>0xAB\<close>.
\<close>

definition ex_query :: "(string, string) QueryResults" where
  "ex_query =
     \<lparr>Labels = [''//a:x'', ''//b:y'', ''//c:z''],
      ConfigurationsFor = (\<lambda>label. if label = ''//a:x'' then [''c1'', ''c2'']
                                    else if label = ''//b:y'' then [] else [''c1'']),
      LabelString = (\<lambda>label. label),
      ConfigurationString = (\<lambda>config. config),
      Hash = (\<lambda>label config. Some [CHR 0xAB]),
      QueryBazelRelease = ''release 7.0.0''\<rparr>"

text \<open>Standard output with room for ten more lines.\<close>

definition ex_stdout :: sink where
  "ex_stdout = \<lparr>written = [], room = 10\<rparr>"

section \<open>Properties\<close>

subsection \<open>The loops as lists of records\<close>

text \<open>
  Appending a list of records one by one: the slice grows by the list, the key set by
  the labels of the list.
\<close>

lemma differences_fold_emit: "differences (fold emit ds s) = differences s @ ds"
  by (induction ds arbitrary: s) (simp_all add: emit_def)

lemma set_affected_fold_emit:
  "set (affectedTargetsSet (fold emit ds s)) = set (affectedTargetsSet s) \<union> Label ` set ds"
  by (induction ds arbitrary: s) (auto simp: emit_def)

lemma distinct_affected_fold_emit:
  "distinct (affectedTargetsSet s) \<Longrightarrow> distinct (affectedTargetsSet (fold emit ds s))"
  by (induction ds arbitrary: s) (simp_all add: emit_def)

text \<open>
  A loop whose body appends a list of records that depends on the visited entry only
  appends the concatenation of those lists.
\<close>

lemma fold_body_emit:
  assumes "\<And>x s. body x s = fold emit (g x) s"
  shows "fold body xs s = fold emit (concat (map g xs)) s"
  by (induction xs arbitrary: s) (simp_all add: assms)

lemma removed_entirely_body_emit: "removed_entirely_body l x s = fold emit (removed_recs l x) s"
  by (cases x) (simp add: removed_entirely_body_def removed_recs_def)

lemma check_config_body_emit: "check_config_body l ac x s = fold emit (check_recs l ac x) s"
  by (cases x) (simp add: check_config_body_def check_recs_def split: option.splits)

lemma added_config_body_emit: "added_config_body l bc x s = fold emit (added_recs l bc x) s"
  by (cases x) (simp add: added_config_body_def added_recs_def split: option.splits)

lemma new_target_body_emit: "new_target_body l x s = fold emit (new_recs l x) s"
  by (cases x) (simp add: new_target_body_def new_recs_def)

lemma before_label_body_emit: "before_label_body a x s = fold emit (before_label_recs a x) s"
  by (cases x)
     (simp add: before_label_body_def before_label_recs_def
        fold_body_emit [OF removed_entirely_body_emit]
        fold_body_emit [OF check_config_body_emit]
        fold_body_emit [OF added_config_body_emit] split: option.splits)

lemma after_label_body_emit: "after_label_body b x s = fold emit (after_label_recs b x) s"
  by (cases x)
     (simp add: after_label_body_def after_label_recs_def
        fold_body_emit [OF new_target_body_emit] split: option.splits)

lemma compare_loops_emit:
  "compare_loops b a = fold emit (all_recs b a) \<lparr>differences = [], affectedTargetsSet = []\<rparr>"
  by (simp add: compare_loops_def all_recs_def
        fold_body_emit [OF before_label_body_emit] fold_body_emit [OF after_label_body_emit])

lemma differences_compare_loops: "differences (compare_loops b a) = all_recs b a"
  by (simp add: compare_loops_emit differences_fold_emit)

subsection \<open>The records of one pair\<close>

text \<open>
  Over a map with distinct keys, the records selected by a predicate that only holds for
  records of the key \<open>l\<close> all come from the entry of \<open>l\<close>, if there is one.
\<close>

lemma filter_concat_alist:
  assumes "distinct (map fst xs)"
    and "\<And>k v. (k, v) \<in> set xs \<Longrightarrow> k \<noteq> l \<Longrightarrow> filter P (f (k, v)) = []"
  shows "filter P (concat (map f xs)) =
         (case map_of xs l of None \<Rightarrow> [] | Some v \<Rightarrow> filter P (f (l, v)))"
  using assms
proof (induction xs)
  case Nil
  then show ?case by simp
next
  case (Cons x xs)
  obtain k v where x: "x = (k, v)" by (cases x)
  have IH: "filter P (concat (map f xs)) =
         (case map_of xs l of None \<Rightarrow> [] | Some v \<Rightarrow> filter P (f (l, v)))"
    using Cons by simp
  show ?case
  proof (cases "k = l")
    case True
    with Cons.prems(1) x have "l \<notin> fst ` set xs" by simp
    then have "map_of xs l = None" by (simp add: map_of_eq_None_iff)
    with IH True x show ?thesis by simp
  next
    case False
    with Cons.prems(2) [of k v] x have "filter P (f (k, v)) = []" by simp
    with IH False x show ?thesis by simp
  qed
qed

lemma wf_hashes_inner: "wf_hashes m \<Longrightarrow> map_of m l = Some cs \<Longrightarrow> distinct (map fst cs)"
  by (auto simp: wf_hashes_def list_all_iff dest!: map_of_SomeD)

lemma wf_hashes_inner_mem: "wf_hashes m \<Longrightarrow> (l, cs) \<in> set m \<Longrightarrow> distinct (map fst cs)"
  by (auto simp: wf_hashes_def list_all_iff)

lemma Label_removed_recs: "d \<in> set (removed_recs k x) \<Longrightarrow> Label d = k"
  by (cases x) (auto simp: removed_recs_def)

lemma Label_check_recs: "d \<in> set (check_recs k ac x) \<Longrightarrow> Label d = k"
  by (cases x) (auto simp: check_recs_def split: option.splits if_splits)

lemma Label_added_recs: "d \<in> set (added_recs k bc x) \<Longrightarrow> Label d = k"
  by (cases x) (auto simp: added_recs_def split: option.splits)

lemma Label_new_recs: "d \<in> set (new_recs k x) \<Longrightarrow> Label d = k"
  by (cases x) (auto simp: new_recs_def)

lemma Label_before_label_recs: "d \<in> set (before_label_recs a (k, v)) \<Longrightarrow> Label d = k"
  by (auto simp: before_label_recs_def split: option.splits
      dest: Label_removed_recs Label_check_recs Label_added_recs)

lemma Label_after_label_recs: "d \<in> set (after_label_recs b (k, v)) \<Longrightarrow> Label d = k"
  by (auto simp: after_label_recs_def split: option.splits dest: Label_new_recs)

lemma filter_at_other_label:
  assumes "\<And>d. d \<in> set ds \<Longrightarrow> Label d = k" and "k \<noteq> l"
  shows "filter (at_pair l c) ds = []"
  using assms by (auto simp: filter_empty_conv at_pair_def)

lemma removed_recs_at:
  assumes "distinct (map fst bc)"
  shows "filter (at_pair l c) (concat (map (removed_recs l) bc)) =
         expected_diff l c (map_of bc c) None"
proof -
  have "filter (at_pair l c) (concat (map (removed_recs l) bc)) =
        (case map_of bc c of None \<Rightarrow> [] | Some v \<Rightarrow> filter (at_pair l c) (removed_recs l (c, v)))"
    using assms by (rule filter_concat_alist) (simp add: removed_recs_def at_pair_def)
  then show ?thesis
    by (simp add: removed_recs_def at_pair_def expected_diff_def split: option.splits)
qed

lemma new_recs_at:
  assumes "distinct (map fst ac)"
  shows "filter (at_pair l c) (concat (map (new_recs l) ac)) =
         expected_diff l c None (map_of ac c)"
proof -
  have "filter (at_pair l c) (concat (map (new_recs l) ac)) =
        (case map_of ac c of None \<Rightarrow> [] | Some v \<Rightarrow> filter (at_pair l c) (new_recs l (c, v)))"
    using assms by (rule filter_concat_alist) (simp add: new_recs_def at_pair_def)
  then show ?thesis
    by (simp add: new_recs_def at_pair_def expected_diff_def split: option.splits)
qed

lemma check_recs_at:
  assumes "distinct (map fst bc)"
  shows "filter (at_pair l c) (concat (map (check_recs l ac) bc)) =
         (case map_of bc c of None \<Rightarrow> [] | Some bh \<Rightarrow> expected_diff l c (Some bh) (map_of ac c))"
proof -
  have "filter (at_pair l c) (concat (map (check_recs l ac) bc)) =
        (case map_of bc c of None \<Rightarrow> [] | Some v \<Rightarrow> filter (at_pair l c) (check_recs l ac (c, v)))"
    using assms
    by (rule filter_concat_alist) (simp add: check_recs_def at_pair_def split: option.splits)
  then show ?thesis
    by (simp add: check_recs_def at_pair_def expected_diff_def split: option.splits)
qed

lemma added_recs_at:
  assumes "distinct (map fst ac)"
  shows "filter (at_pair l c) (concat (map (added_recs l bc) ac)) =
         (case map_of bc c of None \<Rightarrow> expected_diff l c None (map_of ac c) | Some bh \<Rightarrow> [])"
proof -
  have "filter (at_pair l c) (concat (map (added_recs l bc) ac)) =
        (case map_of ac c of None \<Rightarrow> [] | Some v \<Rightarrow> filter (at_pair l c) (added_recs l bc (c, v)))"
    using assms
    by (rule filter_concat_alist) (simp add: added_recs_def at_pair_def split: option.splits)
  then show ?thesis
    by (simp add: added_recs_def at_pair_def expected_diff_def split: option.splits)
qed

lemma before_label_recs_at:
  assumes "distinct (map fst bc)" and "wf_hashes a"
  shows "filter (at_pair l c) (before_label_recs a (l, bc)) =
         expected_diff l c (map_of bc c) (lookup2 a l c)"
proof (cases "map_of a l")
  case None
  then show ?thesis
    using assms(1) by (simp add: before_label_recs_def lookup2_def removed_recs_at)
next
  case (Some ac)
  with assms(2) have "distinct (map fst ac)" by (rule wf_hashes_inner)
  with Some assms(1) show ?thesis
    by (simp add: before_label_recs_def lookup2_def check_recs_at added_recs_at
          expected_diff_def split: option.splits)
qed

lemma after_label_recs_at:
  assumes "distinct (map fst ac)"
  shows "filter (at_pair l c) (after_label_recs b (l, ac)) =
         (case map_of b l of None \<Rightarrow> expected_diff l c None (map_of ac c) | Some bc \<Rightarrow> [])"
  using assms by (simp add: after_label_recs_def new_recs_at split: option.splits)

text \<open>
  The two outer loops together append, for every (label, configuration) pair, exactly
  the records that the two hashes of the pair call for.
\<close>

lemma all_recs_at:
  assumes "wf_hashes b" and "wf_hashes a"
  shows "filter (at_pair l c) (all_recs b a) =
         expected_diff l c (lookup2 b l c) (lookup2 a l c)"
proof -
  have db: "distinct (map fst b)" and da: "distinct (map fst a)"
    using assms by (simp_all add: wf_hashes_def)
  have 1: "filter (at_pair l c) (concat (map (before_label_recs a) b)) =
        (case map_of b l of None \<Rightarrow> []
         | Some bc \<Rightarrow> filter (at_pair l c) (before_label_recs a (l, bc)))"
    using db by (rule filter_concat_alist) (rule filter_at_other_label [OF Label_before_label_recs])
  have 2: "filter (at_pair l c) (concat (map (after_label_recs b) a)) =
        (case map_of a l of None \<Rightarrow> []
         | Some ac \<Rightarrow> filter (at_pair l c) (after_label_recs b (l, ac)))"
    using da by (rule filter_concat_alist) (rule filter_at_other_label [OF Label_after_label_recs])
  show ?thesis
  proof (cases "map_of b l")
    case None
    show ?thesis
    proof (cases "map_of a l")
      case None
      with \<open>map_of b l = None\<close> show ?thesis
        by (simp add: all_recs_def 1 2 lookup2_def expected_diff_def)
    next
      case (Some ac)
      with assms(2) have "distinct (map fst ac)" by (rule wf_hashes_inner)
      with Some \<open>map_of b l = None\<close> show ?thesis
        by (simp add: all_recs_def 1 2 lookup2_def after_label_recs_at)
    qed
  next
    case (Some bc)
    with assms(1) have dbc: "distinct (map fst bc)" by (rule wf_hashes_inner)
    have 3: "filter (at_pair l c) (concat (map (after_label_recs b) a)) = []"
    proof (cases "map_of a l")
      case None
      then show ?thesis by (simp add: 2)
    next
      case (Some ac)
      with assms(2) have "distinct (map fst ac)" by (rule wf_hashes_inner)
      with Some \<open>map_of b l = Some bc\<close> show ?thesis by (simp add: 2 after_label_recs_at)
    qed
    from Some dbc assms(2) show ?thesis
      by (simp add: all_recs_def 1 3 before_label_recs_at lookup2_def)
  qed
qed

subsection \<open>The summary counts\<close>

lemma fold_tally_body:
  "TotalAdded (fold tally_body ds s) =
     TotalAdded s + int (length (filter (\<lambda>d. Status d = ''added'') ds)) \<and>
   TotalRemoved (fold tally_body ds s) =
     TotalRemoved s + int (length (filter (\<lambda>d. Status d = ''removed'') ds)) \<and>
   TotalChanged (fold tally_body ds s) =
     TotalChanged s + int (length (filter (\<lambda>d. Status d = ''changed'') ds)) \<and>
   AffectedTargets (fold tally_body ds s) = AffectedTargets s"
  by (induction ds arbitrary: s) (simp_all add: tally_body_def)

lemma all_recs_mem:
  assumes "wf_hashes b" and "wf_hashes a"
  shows "d \<in> set (all_recs b a) \<longleftrightarrow>
         d \<in> set (expected_diff (Label d) (Configuration d)
                    (lookup2 b (Label d) (Configuration d)) (lookup2 a (Label d) (Configuration d)))"
proof -
  have "d \<in> set (all_recs b a) \<longleftrightarrow>
        d \<in> set (filter (at_pair (Label d) (Configuration d)) (all_recs b a))"
    by (simp add: at_pair_def)
  then show ?thesis by (simp only: all_recs_at [OF assms])
qed

lemma Status_all_recs:
  "d \<in> set (all_recs b a) \<Longrightarrow> Status d \<in> {''added'', ''removed'', ''changed''}"
  by (auto simp: all_recs_def before_label_recs_def after_label_recs_def removed_recs_def
        check_recs_def added_recs_def new_recs_def split: option.splits if_splits)

lemma length_by_status:
  assumes "\<And>d. d \<in> set ds \<Longrightarrow> Status d \<in> {''added'', ''removed'', ''changed''}"
  shows "length ds = length (filter (\<lambda>d. Status d = ''added'') ds) +
                     length (filter (\<lambda>d. Status d = ''removed'') ds) +
                     length (filter (\<lambda>d. Status d = ''changed'') ds)"
  using assms by (induction ds) auto

lemma length_expected_diff:
  "length (expected_diff l c bo ao) = (if bo = ao then 0 else 1)"
  by (auto simp: expected_diff_def split: option.splits)

subsection \<open>The result of a comparison\<close>

lemma lookup2_hashes_map:
  "lookup2 m l c = (case hashes_map m l of None \<Rightarrow> None | Some f \<Rightarrow> f c)"
  by (simp add: lookup2_def hashes_map_def split: option.splits)


lemma Differences_compare_loaded:
  "Differences (compare_loaded rangeOrder beforeData afterData) =
   all_recs (TargetHashes beforeData) (TargetHashes afterData)"
  by (simp add: compare_loaded_def Let_def differences_compare_loops)

lemma expected_diff_same: "expected_diff l c x x = []"
  by (simp add: expected_diff_def split: option.splits)


lemma length_filter_mono:
  "(\<And>x. P x \<Longrightarrow> Q x) \<Longrightarrow> length (filter P xs) \<le> length (filter Q xs)"
  by (induction xs) auto

text \<open>
  No record is appended twice, and the set of records depends on the mappings only.
\<close>

lemma distinct_all_recs:
  assumes "wf_hashes b" and "wf_hashes a"
  shows "distinct (all_recs b a)"
proof -
  have "count (mset (all_recs b a)) d = (if d \<in> set (all_recs b a) then 1 else 0)" for d
  proof (cases "d \<in> set (all_recs b a)")
    case True
    have "length (filter ((=) d) (all_recs b a)) \<le>
          length (filter (at_pair (Label d) (Configuration d)) (all_recs b a))"
      by (rule length_filter_mono) (auto simp: at_pair_def)
    also have "\<dots> \<le> 1"
      by (simp only: all_recs_at [OF assms] length_expected_diff) simp
    finally have "count_list (all_recs b a) d \<le> 1"
      by (simp add: count_list_eq_length_filter)
    moreover from True have "count_list (all_recs b a) d \<noteq> 0"
      by (simp add: count_list_0_iff)
    ultimately show ?thesis using True by (simp add: count_mset)
  next
    case False
    then show ?thesis by (simp add: count_mset count_list_0_iff)
  qed
  then show ?thesis by (simp only: distinct_count_atmost_1) simp
qed

lemma set_all_recs_cong:
  assumes "wf_hashes b" and "wf_hashes a" and "wf_hashes b'" and "wf_hashes a'"
    and "hashes_map b' = hashes_map b" and "hashes_map a' = hashes_map a"
  shows "set (all_recs b' a') = set (all_recs b a)"
proof -
  have "lookup2 b' l c = lookup2 b l c" "lookup2 a' l c = lookup2 a l c" for l c
    using assms(5,6) by (simp_all add: lookup2_hashes_map)
  then show ?thesis
    by (auto simp: all_recs_mem [OF assms(1,2)] all_recs_mem [OF assms(3,4)])
qed

lemma Summary_compare_loaded:
  "TotalAdded (Summary (compare_loaded ro bd ad)) =
     int (length (filter (\<lambda>d. Status d = ''added'') (all_recs (TargetHashes bd) (TargetHashes ad))))"
  "TotalRemoved (Summary (compare_loaded ro bd ad)) =
     int (length (filter (\<lambda>d. Status d = ''removed'') (all_recs (TargetHashes bd) (TargetHashes ad))))"
  "TotalChanged (Summary (compare_loaded ro bd ad)) =
     int (length (filter (\<lambda>d. Status d = ''changed'') (all_recs (TargetHashes bd) (TargetHashes ad))))"
  "AffectedTargets (Summary (compare_loaded ro bd ad)) =
     sort (ro (affectedTargetsSet (compare_loops (TargetHashes bd) (TargetHashes ad))))"
  by (simp_all add: compare_loaded_def Let_def summarize_def fold_tally_body
        differences_compare_loops)

lemma affected_compare_loops:
  "set (affectedTargetsSet (compare_loops b a)) = Label ` set (all_recs b a)"
  "distinct (affectedTargetsSet (compare_loops b a))"
  by (simp_all add: compare_loops_emit set_affected_fold_emit distinct_affected_fold_emit)

lemma AffectedTargets_props:
  assumes "is_range_order ro"
  shows "sorted (AffectedTargets (Summary (compare_loaded ro bd ad)))"
    and "distinct (AffectedTargets (Summary (compare_loaded ro bd ad)))"
    and "set (AffectedTargets (Summary (compare_loaded ro bd ad))) =
         Label ` set (all_recs (TargetHashes bd) (TargetHashes ad))"
proof -
  let ?ks = "affectedTargetsSet (compare_loops (TargetHashes bd) (TargetHashes ad))"
  from assms have m: "mset (ro ?ks) = mset ?ks" by (simp add: is_range_order_def)
  show "sorted (AffectedTargets (Summary (compare_loaded ro bd ad)))"
    by (simp add: Summary_compare_loaded)
  from m have "distinct (ro ?ks) = distinct ?ks" by (rule mset_eq_imp_distinct_iff)
  then show "distinct (AffectedTargets (Summary (compare_loaded ro bd ad)))"
    by (simp add: Summary_compare_loaded affected_compare_loops)
  from m have "set (ro ?ks) = set ?ks" by (rule mset_eq_setD)
  then show "set (AffectedTargets (Summary (compare_loaded ro bd ad))) =
         Label ` set (all_recs (TargetHashes bd) (TargetHashes ad))"
    by (simp add: Summary_compare_loaded affected_compare_loops)
qed


lemma ex_wf:
  "wf_hashes (TargetHashes ex_before)" "wf_hashes (TargetHashes ex_after)"
  "wf_hashes (TargetHashes ex_two_configs)"
  "hashes_present (TargetHashes ex_before)" "hashes_present (TargetHashes ex_after)"
  "hashes_present (TargetHashes ex_two_configs)"
  by (simp_all add: wf_hashes_def hashes_present_def ex_before_def ex_after_def
        ex_two_configs_def)

lemma is_range_order_rev: "is_range_order rev"
  by (simp add: is_range_order_def)

lemma is_range_order_id: "is_range_order (\<lambda>ks. ks)"
  by (simp add: is_range_order_def)

subsection \<open>Labels in order of first occurrence\<close>

lemma set_first_occurrences: "set (first_occurrences xs) = set xs"
  by (induction xs) auto

lemma distinct_first_occurrences: "distinct (first_occurrences xs)"
  by (induction xs) (auto simp: set_first_occurrences)

text \<open>
  The loop of \<^verbatim>\<open>GetAffectedTargetLabels\<close>, started with any slice of labels and any set
  of seen labels.
\<close>

lemma get_labels_loop_ok:
  assumes "\<forall>l \<in> set (map Label ds). l \<notin> set seen \<longrightarrow> (\<exists>x. parse l = Inr x)"
  shows "\<exists>ls. get_labels_loop parse ds labels seen = Inr (labels @ ls) \<and>
              map Inr ls =
              map parse (filter (\<lambda>l. l \<notin> set seen) (first_occurrences (map Label ds)))"
  using assms
proof (induction ds arbitrary: labels seen)
  case Nil
  then show ?case by simp
next
  case (Cons d ds)
  show ?case
  proof (cases "Label d \<in> set seen")
    case True
    from Cons.prems have "\<forall>l \<in> set (map Label ds). l \<notin> set seen \<longrightarrow> (\<exists>x. parse l = Inr x)"
      by simp
    from Cons.IH [OF this, of labels] obtain ls where
      ls: "get_labels_loop parse ds labels seen = Inr (labels @ ls)"
        "map Inr ls =
         map parse (filter (\<lambda>l. l \<notin> set seen) (first_occurrences (map Label ds)))"
      by blast
    have "filter (\<lambda>l. l \<notin> set seen) (filter (\<lambda>y. y \<noteq> Label d) (first_occurrences (map Label ds))) =
          filter (\<lambda>l. l \<notin> set seen) (first_occurrences (map Label ds))"
      using True by (auto simp: filter_filter intro: filter_cong)
    with ls True show ?thesis by simp
  next
    case False
    with Cons.prems obtain x where x: "parse (Label d) = Inr x" by auto
    from Cons.prems have
      "\<forall>l \<in> set (map Label ds). l \<notin> set (List.insert (Label d) seen) \<longrightarrow> (\<exists>x. parse l = Inr x)"
      by simp
    from Cons.IH [OF this, of "labels @ [x]"] obtain ls where
      ls: "get_labels_loop parse ds (labels @ [x]) (List.insert (Label d) seen) =
             Inr ((labels @ [x]) @ ls)"
        "map Inr ls =
         map parse (filter (\<lambda>l. l \<notin> set (List.insert (Label d) seen))
                      (first_occurrences (map Label ds)))"
      by blast
    have "filter (\<lambda>l. l \<notin> set seen) (filter (\<lambda>y. y \<noteq> Label d) (first_occurrences (map Label ds))) =
          filter (\<lambda>l. l \<notin> set (List.insert (Label d) seen)) (first_occurrences (map Label ds))"
      by (auto simp: filter_filter intro: filter_cong)
    with ls x False have
      "get_labels_loop parse (d # ds) labels seen = Inr (labels @ (x # ls)) \<and>
       map Inr (x # ls) =
       map parse (filter (\<lambda>l. l \<notin> set seen) (first_occurrences (map Label (d # ds))))"
      by simp
    then show ?thesis by blast
  qed
qed

lemma get_labels_loop_err:
  assumes "\<exists>l \<in> set (map Label ds). l \<notin> set seen \<and> (\<nexists>x. parse l = Inr x)"
  shows "\<exists>l \<in> set (map Label ds). l \<notin> set seen \<and> (\<nexists>x. parse l = Inr x) \<and>
           get_labels_loop parse ds labels seen = Inl (ParseLabelError l)"
  using assms
proof (induction ds arbitrary: labels seen)
  case Nil
  then show ?case by simp
next
  case (Cons d ds)
  show ?case
  proof (cases "Label d \<in> set seen")
    case True
    with Cons.prems have "\<exists>l \<in> set (map Label ds). l \<notin> set seen \<and> (\<nexists>x. parse l = Inr x)"
      by auto
    from Cons.IH [OF this, of labels] True show ?thesis by auto
  next
    case False
    show ?thesis
    proof (cases "parse (Label d)")
      case (Inl e)
      with False show ?thesis by auto
    next
      case (Inr x)
      from Cons.prems obtain l where
        l: "l \<in> set (map Label (d # ds))" "l \<notin> set seen" "\<nexists>x. parse l = Inr x"
        by blast
      from l(3) Inr have "l \<noteq> Label d" by auto
      with l have "l \<in> set (map Label ds)" "l \<notin> set (List.insert (Label d) seen)"
        by auto
      with l(3) have
        "\<exists>l \<in> set (map Label ds). l \<notin> set (List.insert (Label d) seen) \<and> (\<nexists>x. parse l = Inr x)"
        by blast
      from Cons.IH [OF this, of "labels @ [x]"] Inr False show ?thesis by auto
    qed
  qed
qed

subsection \<open>Writing the target list\<close>

lemma write_targets_eq:
  "write_targets afterTargets includeRemoved targets snk =
     (if length (filter (\<lambda>t. afterTargets t \<or> includeRemoved) targets) \<le> room snk
      then Inr \<lparr>written = written snk @
                   map line (filter (\<lambda>t. afterTargets t \<or> includeRemoved) targets),
                 room = room snk -
                   length (filter (\<lambda>t. afterTargets t \<or> includeRemoved) targets)\<rparr>
      else Inl WriteError)"
proof (induction targets arbitrary: snk)
  case Nil
  then show ?case by simp
next
  case (Cons t ts)
  show ?case
  proof (cases "afterTargets t \<or> includeRemoved")
    case True
    then show ?thesis
      by (cases "room snk") (auto simp: Cons.IH Fprintln_def line_def)
  next
    case False
    with Cons.IH [of snk] show ?thesis by simp
  qed
qed

lemma line_inj: "line s = line t \<longleftrightarrow> s = t"
  by (simp add: line_def)

subsection \<open>Loading\<close>

lemma LoadPersistedHashes_ex:
  "LoadPersistedHashes ex_fs ''before.json'' = Inr ex_before"
  "LoadPersistedHashes ex_fs ''after.json'' = Inr ex_after"
  "LoadPersistedHashes ex_fs ''broken.json'' = Inl (DecodeError ''broken.json'')"
  "LoadPersistedHashes ex_fs ''missing.json'' = Inl (OpenError ''missing.json'')"
  by (simp_all add: LoadPersistedHashes_def ex_fs_def decode_document_def encode_document_def
        decode_metadata_def field_or_def ex_before_def ex_after_def)

subsection \<open>Building the hash map\<close>

lemma update_new_key: "k \<notin> fst ` set al \<Longrightarrow> AList.update k v al = al @ [(k, v)]"
  by (induction al) auto

lemma update_last_key: "k \<notin> fst ` set al \<Longrightarrow> AList.update k v (al @ [(k, w)]) = al @ [(k, v)]"
  by (induction al) auto

text \<open>
  The counter grows by one for each configuration, whatever the texts of labels and
  configurations are.
\<close>

lemma persist_configs_count:
  assumes "list_all (\<lambda>c. Hash qr l c \<noteq> None) cs"
    and "map_of th (LabelString qr l) \<noteq> None"
  shows "\<exists>th'. persist_configs qr l cs (th, n) = Inr (th', n + int (length cs))"
  using assms
proof (induction cs arbitrary: th n)
  case Nil
  then show ?case by simp
next
  case (Cons c cs)
  from Cons.prems obtain h inner where
    h: "Hash qr l c = Some h" and inner: "map_of th (LabelString qr l) = Some inner"
    by auto
  let ?th = "AList.update (LabelString qr l)
     (AList.update (ConfigurationString qr c) (EncodeToString h) inner) th"
  have a: "map_of ?th (LabelString qr l) \<noteq> None" by (simp add: update_conv')
  from Cons.prems have b: "list_all (\<lambda>c. Hash qr l c \<noteq> None) cs" by simp
  from Cons.IH [OF b a, of "n + 1"] obtain th' where
    "persist_configs qr l cs (?th, n + 1) = Inr (th', n + 1 + int (length cs))"
    by blast
  with h inner show ?case by simp
qed

lemma persist_labels_count:
  assumes "list_all (\<lambda>l. list_all (\<lambda>c. Hash qr l c \<noteq> None) (ConfigurationsFor qr l)) ls"
  shows "\<exists>th'. persist_labels qr ls (th, n) =
           Inr (th', n + (\<Sum>l\<leftarrow>ls. int (length (ConfigurationsFor qr l))))"
  using assms
proof (induction ls arbitrary: th n)
  case Nil
  then show ?case by simp
next
  case (Cons l ls)
  let ?th = "AList.update (LabelString qr l) [] th"
  have a: "map_of ?th (LabelString qr l) \<noteq> None" by (simp add: update_conv')
  from Cons.prems have b: "list_all (\<lambda>c. Hash qr l c \<noteq> None) (ConfigurationsFor qr l)"
    by simp
  from persist_configs_count [OF b a, of n] obtain th1 where
    1: "persist_configs qr l (ConfigurationsFor qr l) (?th, n) =
          Inr (th1, n + int (length (ConfigurationsFor qr l)))"
    by blast
  from Cons.prems have
    "list_all (\<lambda>l. list_all (\<lambda>c. Hash qr l c \<noteq> None) (ConfigurationsFor qr l)) ls"
    by simp
  from Cons.IH [OF this, of th1 "n + int (length (ConfigurationsFor qr l))"] obtain th' where
    "persist_labels qr ls (th1, n + int (length (ConfigurationsFor qr l))) =
       Inr (th', n + int (length (ConfigurationsFor qr l)) +
                 (\<Sum>l\<leftarrow>ls. int (length (ConfigurationsFor qr l))))"
    by blast
  with 1 show ?case by (simp add: add.assoc)
qed

text \<open>
  With pairwise distinct texts every assignment adds a new entry at the end.
\<close>

lemma persist_configs_exact:
  assumes "list_all (\<lambda>c. Hash qr l c \<noteq> None) cs"
    and "map_of th (LabelString qr l) = Some inner"
    and "distinct (map (ConfigurationString qr) cs)"
    and "set (map (ConfigurationString qr) cs) \<inter> fst ` set inner = {}"
  shows "persist_configs qr l cs (th, n) =
           Inr (AList.update (LabelString qr l)
                  (inner @ map (\<lambda>c. (ConfigurationString qr c,
                      EncodeToString (case Hash qr l c of None \<Rightarrow> [] | Some h \<Rightarrow> h))) cs) th,
                n + int (length cs))"
  using assms
proof (induction cs arbitrary: th inner n)
  case Nil
  then show ?case by (simp add: update_triv)
next
  case (Cons c cs)
  from Cons.prems(1) obtain h where h: "Hash qr l c = Some h" by auto
  let ?e = "(ConfigurationString qr c, EncodeToString h)"
  let ?th = "AList.update (LabelString qr l) (inner @ [?e]) th"
  from Cons.prems(4) have new: "ConfigurationString qr c \<notin> fst ` set inner" by auto
  have 1: "list_all (\<lambda>c. Hash qr l c \<noteq> None) cs" using Cons.prems(1) by simp
  have 2: "map_of ?th (LabelString qr l) = Some (inner @ [?e])" by (simp add: update_conv')
  have 3: "distinct (map (ConfigurationString qr) cs)" using Cons.prems(3) by simp
  have 4: "set (map (ConfigurationString qr) cs) \<inter> fst ` set (inner @ [?e]) = {}"
    using Cons.prems(3,4) by auto
  from Cons.IH [OF 1 2 3 4, of "n + 1"] h Cons.prems(2) new show ?case
    by (simp add: update_new_key)
qed

lemma persist_labels_exact:
  assumes "list_all (\<lambda>l. list_all (\<lambda>c. Hash qr l c \<noteq> None) (ConfigurationsFor qr l)) ls"
    and "distinct (map (LabelString qr) ls)"
    and "set (map (LabelString qr) ls) \<inter> fst ` set th = {}"
    and "list_all (\<lambda>l. distinct (map (ConfigurationString qr) (ConfigurationsFor qr l))) ls"
  shows "persist_labels qr ls (th, n) =
           Inr (th @ map (hash_entry qr) ls,
                n + (\<Sum>l\<leftarrow>ls. int (length (ConfigurationsFor qr l))))"
  using assms
proof (induction ls arbitrary: th n)
  case Nil
  then show ?case by simp
next
  case (Cons l ls)
  from Cons.prems(3) have new: "LabelString qr l \<notin> fst ` set th" by auto
  let ?th = "th @ [(LabelString qr l, [])]"
  have u: "AList.update (LabelString qr l) [] th = ?th"
    using new by (rule update_new_key)
  from new have "map_of th (LabelString qr l) = None"
    by (simp add: map_of_eq_None_iff)
  then have m: "map_of ?th (LabelString qr l) = Some []"
    by (simp add: map_add_def)
  have c: "persist_configs qr l (ConfigurationsFor qr l) (?th, n) =
           Inr (th @ [hash_entry qr l], n + int (length (ConfigurationsFor qr l)))"
    using Cons.prems(1,4) new
    by (simp add: persist_configs_exact [OF _ m] update_last_key hash_entry_def)
  have 1: "list_all (\<lambda>l. list_all (\<lambda>c. Hash qr l c \<noteq> None) (ConfigurationsFor qr l)) ls"
    using Cons.prems(1) by simp
  have 2: "distinct (map (LabelString qr) ls)" using Cons.prems(2) by simp
  have 3: "set (map (LabelString qr) ls) \<inter> fst ` set (th @ [hash_entry qr l]) = {}"
    using Cons.prems(2,3) by (auto simp: hash_entry_def)
  have 4: "list_all (\<lambda>l. distinct (map (ConfigurationString qr) (ConfigurationsFor qr l))) ls"
    using Cons.prems(4) by simp
  from Cons.IH [OF 1 2 3 4, of "n + int (length (ConfigurationsFor qr l))"] u c
  show ?case by (simp add: add.assoc)
qed

lemma sum_hash_entries:
  "(\<Sum>(label, configs)\<leftarrow>map (hash_entry qr) ls. int (length configs)) =
   (\<Sum>l\<leftarrow>ls. int (length (ConfigurationsFor qr l)))"
  by (induction ls) (simp_all add: hash_entry_def)

section \<open>The claims\<close>

text \<open>
  C1. For two snapshots with well-formed maps, the number of Difference Records is the sum
  of the three summary counts, and for every (label, configuration) pair the result has
  exactly one record when the two snapshots disagree on the pair (unequal hashes, or a
  hash on one side only) and no record when they agree on it.
\<close>

theorem C1_comparison_exhaustive:
  assumes "wf_hashes (TargetHashes beforeData)" and "wf_hashes (TargetHashes afterData)"
  shows "int (length (Differences (compare_loaded rangeOrder beforeData afterData))) =
           TotalAdded (Summary (compare_loaded rangeOrder beforeData afterData)) +
           TotalRemoved (Summary (compare_loaded rangeOrder beforeData afterData)) +
           TotalChanged (Summary (compare_loaded rangeOrder beforeData afterData)) \<and>
         (\<forall>l c. length (filter (at_pair l c)
                    (Differences (compare_loaded rangeOrder beforeData afterData))) =
                (if lookup2 (TargetHashes beforeData) l c = lookup2 (TargetHashes afterData) l c
                 then 0 else 1))"
proof -
  let ?b = "TargetHashes beforeData" and ?a = "TargetHashes afterData"
  let ?r = "compare_loaded rangeOrder beforeData afterData"
  have D: "Differences ?r = all_recs ?b ?a"
    by (simp add: compare_loaded_def Let_def differences_compare_loops)
  have "length (all_recs ?b ?a) =
          length (filter (\<lambda>d. Status d = ''added'') (all_recs ?b ?a)) +
          length (filter (\<lambda>d. Status d = ''removed'') (all_recs ?b ?a)) +
          length (filter (\<lambda>d. Status d = ''changed'') (all_recs ?b ?a))"
    by (rule length_by_status) (rule Status_all_recs)
  then have 1: "int (length (Differences ?r)) =
      TotalAdded (Summary ?r) + TotalRemoved (Summary ?r) + TotalChanged (Summary ?r)"
    by (simp add: compare_loaded_def Let_def summarize_def fold_tally_body
          differences_compare_loops)
  have 2: "length (filter (at_pair l c) (Differences ?r)) =
           (if lookup2 ?b l c = lookup2 ?a l c then 0 else 1)" for l c
    by (simp only: D all_recs_at [OF assms] length_expected_diff)
  from 1 2 show ?thesis by blast
qed

theorem C1_comparison_exhaustive_witness:
  "wf_hashes (TargetHashes ex_before) \<and> wf_hashes (TargetHashes ex_after) \<and>
   int (length (Differences (compare_loaded rev ex_before ex_after))) =
           TotalAdded (Summary (compare_loaded rev ex_before ex_after)) +
           TotalRemoved (Summary (compare_loaded rev ex_before ex_after)) +
           TotalChanged (Summary (compare_loaded rev ex_before ex_after)) \<and>
   length (filter (at_pair ''//a:x'' ''c1'') (Differences (compare_loaded rev ex_before ex_after))) = 1 \<and>
   length (filter (at_pair ''//b:y'' ''c1'') (Differences (compare_loaded rev ex_before ex_after))) = 1 \<and>
   length (filter (at_pair ''//b:y'' ''c2'') (Differences (compare_loaded rev ex_before ex_after))) = 0"
proof -
  have b: "wf_hashes (TargetHashes ex_before)" by (simp add: wf_hashes_def ex_before_def)
  have a: "wf_hashes (TargetHashes ex_after)" by (simp add: wf_hashes_def ex_after_def)
  have l: "lookup2 (TargetHashes ex_before) ''//a:x'' ''c1'' \<noteq> lookup2 (TargetHashes ex_after) ''//a:x'' ''c1''"
     "lookup2 (TargetHashes ex_before) ''//b:y'' ''c1'' \<noteq> lookup2 (TargetHashes ex_after) ''//b:y'' ''c1''"
     "lookup2 (TargetHashes ex_before) ''//b:y'' ''c2'' = lookup2 (TargetHashes ex_after) ''//b:y'' ''c2''"
    by (simp_all add: lookup2_def ex_before_def ex_after_def)
  show ?thesis
    using C1_comparison_exhaustive [OF b a, of rev] a b l by simp
qed





text \<open>
  C3, as amended. The summary's \<^verbatim>\<open>AffectedTargets\<close> holds exactly the labels that occur
  in some Difference Record, each once, in ascending order. \<^verbatim>\<open>GetAffectedTargetLabels\<close>
  returns, when every such label parses, the parsed labels in the order of their first
  occurrence in the differences, each once; when some label does not parse it returns a
  parse error for one of them.
\<close>

theorem C3_affected_labels:
  assumes "is_range_order rangeOrder"
  shows "sorted (AffectedTargets (Summary (compare_loaded rangeOrder beforeData afterData))) \<and>
         distinct (AffectedTargets (Summary (compare_loaded rangeOrder beforeData afterData))) \<and>
         set (AffectedTargets (Summary (compare_loaded rangeOrder beforeData afterData))) =
           Label ` set (Differences (compare_loaded rangeOrder beforeData afterData)) \<and>
         (if \<forall>l \<in> Label ` set (Differences (compare_loaded rangeOrder beforeData afterData)).
               \<exists>x. parse l = Inr x
          then \<exists>ls. GetAffectedTargetLabels parse
                       (compare_loaded rangeOrder beforeData afterData) = Inr ls \<and>
                    map Inr ls =
                    map parse (first_occurrences (map Label
                      (Differences (compare_loaded rangeOrder beforeData afterData))))
          else \<exists>l \<in> Label ` set (Differences (compare_loaded rangeOrder beforeData afterData)).
                 GetAffectedTargetLabels parse
                   (compare_loaded rangeOrder beforeData afterData) = Inl (ParseLabelError l))"
proof -
  let ?r = "compare_loaded rangeOrder beforeData afterData"
  have 1: "sorted (AffectedTargets (Summary ?r))" "distinct (AffectedTargets (Summary ?r))"
    using assms by (rule AffectedTargets_props)+
  have 2: "set (AffectedTargets (Summary ?r)) = Label ` set (Differences ?r)"
    by (simp only: AffectedTargets_props(3) [OF assms] Differences_compare_loaded)
  have 3: "\<exists>ls. GetAffectedTargetLabels parse ?r = Inr ls \<and>
                map Inr ls = map parse (first_occurrences (map Label (Differences ?r)))"
    if "\<forall>l \<in> Label ` set (Differences ?r). \<exists>x. parse l = Inr x"
    using get_labels_loop_ok [of "Differences ?r" "[]" parse "[]"] that
    by (simp add: GetAffectedTargetLabels_def)
  have 4: "\<exists>l \<in> Label ` set (Differences ?r).
             GetAffectedTargetLabels parse ?r = Inl (ParseLabelError l)"
    if "\<not> (\<forall>l \<in> Label ` set (Differences ?r). \<exists>x. parse l = Inr x)"
    using get_labels_loop_err [of "Differences ?r" "[]" parse "[]"] that
    by (auto simp: GetAffectedTargetLabels_def)
  from 1 2 3 4 show ?thesis by simp
qed

theorem C3_affected_labels_witness:
  "is_range_order rev \<and>
   AffectedTargets (Summary (compare_loaded rev ex_after ex_before)) = [''//a:x'', ''//b:y''] \<and>
   GetAffectedTargetLabels (Inr :: string \<Rightarrow> error + string)
     (compare_loaded rev ex_after ex_before) = Inr [''//b:y'', ''//a:x'']"
proof -
  have D: "Differences (compare_loaded rev ex_after ex_before) =
     [\<lparr>Label = ''//b:y'', Configuration = ''c1'', Status = ''removed'',
       BeforeHash = ''ccc'', AfterHash = ''''\<rparr>,
      \<lparr>Label = ''//a:x'', Configuration = ''c1'', Status = ''changed'',
       BeforeHash = ''bbb'', AfterHash = ''aaa''\<rparr>]"
    by (simp add: Differences_compare_loaded all_recs_def before_label_recs_def
        after_label_recs_def check_recs_def added_recs_def new_recs_def removed_recs_def
        ex_before_def ex_after_def)
  have "sorted xs \<Longrightarrow> distinct xs \<Longrightarrow> set xs = {''//b:y'', ''//a:x''} \<Longrightarrow>
        xs = [''//a:x'', ''//b:y'']" for xs :: "string list"
    by (rule sorted_distinct_set_unique) auto
  with C3_affected_labels [OF is_range_order_rev, of ex_after ex_before
      "Inr :: string \<Rightarrow> error + string"]
  show ?thesis
    by (auto simp: D is_range_order_rev)
qed

text \<open>
  C3 as stated fails for \<^verbatim>\<open>GetAffectedTargetLabels\<close>: with \<^verbatim>\<open>//b:y\<close> visited first in the
  before file its result is not sorted.
\<close>

theorem C3_counterexample:
  "GetAffectedTargetLabels (Inr :: string \<Rightarrow> error + string)
     (compare_loaded rev ex_after ex_before) = Inr [''//b:y'', ''//a:x''] \<and>
   \<not> sorted [''//b:y'', ''//a:x'']"
  by (simp add: GetAffectedTargetLabels_def Differences_compare_loaded all_recs_def
        before_label_recs_def after_label_recs_def check_recs_def added_recs_def new_recs_def
        removed_recs_def ex_before_def ex_after_def)


text \<open>
  C4. Comparing a well-formed snapshot with one that holds the same mapping of labels and
  configurations to hashes yields no Difference Record, no affected label, and three
  counts of zero.
\<close>

theorem C4_equal_snapshots:
  assumes "wf_hashes (TargetHashes beforeData)" and "wf_hashes (TargetHashes afterData)"
    and "hashes_map (TargetHashes afterData) = hashes_map (TargetHashes beforeData)"
    and "is_range_order rangeOrder"
  shows "Differences (compare_loaded rangeOrder beforeData afterData) = [] \<and>
         AffectedTargets (Summary (compare_loaded rangeOrder beforeData afterData)) = [] \<and>
         TotalAdded (Summary (compare_loaded rangeOrder beforeData afterData)) = 0 \<and>
         TotalRemoved (Summary (compare_loaded rangeOrder beforeData afterData)) = 0 \<and>
         TotalChanged (Summary (compare_loaded rangeOrder beforeData afterData)) = 0"
proof -
  let ?b = "TargetHashes beforeData" and ?a = "TargetHashes afterData"
  have "lookup2 ?a l c = lookup2 ?b l c" for l c
    using assms(3) by (simp add: lookup2_hashes_map)
  then have "d \<notin> set (all_recs ?b ?a)" for d
    by (simp add: all_recs_mem [OF assms(1,2)] expected_diff_same)
  then have nil: "all_recs ?b ?a = []"
    by (metis list.set_intros(1) neq_Nil_conv)
  from assms(4) have "mset (rangeOrder []) = mset ([] :: string list)"
    by (simp only: is_range_order_def)
  then have ro: "rangeOrder [] = []" by simp
  have "affectedTargetsSet (compare_loops ?b ?a) = []"
    by (simp add: compare_loops_emit nil)
  with nil ro show ?thesis
    by (simp add: Differences_compare_loaded Summary_compare_loaded)
qed

theorem C4_equal_snapshots_witness:
  "wf_hashes (TargetHashes ex_after) \<and> is_range_order rev \<and>
   Differences (compare_loaded rev ex_after ex_after) = [] \<and>
   AffectedTargets (Summary (compare_loaded rev ex_after ex_after)) = [] \<and>
   TotalAdded (Summary (compare_loaded rev ex_after ex_after)) = 0 \<and>
   TotalRemoved (Summary (compare_loaded rev ex_after ex_after)) = 0 \<and>
   TotalChanged (Summary (compare_loaded rev ex_after ex_after)) = 0"
  using C4_equal_snapshots [OF ex_wf(2) ex_wf(2) refl is_range_order_rev]
    ex_wf(2) is_range_order_rev
  by simp


text \<open>
  C5. With \<^verbatim>\<open>AfterTargets\<close> as the specification describes it, and an output stream with
  room for the lines, \<^verbatim>\<open>outputTargetList\<close> succeeds and writes, in the order of the
  affected labels, one line for each affected label that the after file holds with at
  least one configuration; with include-removed set it writes a line for every affected
  label. So with include-removed unset an affected label is written if and only if the
  after file holds it with at least one configuration.
\<close>

theorem C5_label_list:
  assumes "(if outputFile = '''' then Some stdout else create outputFile) = Some output"
    and "length (AffectedTargets (Summary (compare_loaded rangeOrder beforeData afterData)))
           \<le> room output"
  shows "\<exists>out.
           outputTargetList stdout create (AfterTargets (TargetHashes afterData))
             (compare_loaded rangeOrder beforeData afterData) outputFile includeRemoved = Inr out \<and>
           written out = written output @
             map line (filter (\<lambda>t. (\<exists>afterConfigs. map_of (TargetHashes afterData) t =
                                        Some afterConfigs \<and> afterConfigs \<noteq> []) \<or> includeRemoved)
                        (AffectedTargets (Summary (compare_loaded rangeOrder beforeData afterData)))) \<and>
           (\<forall>t \<in> set (AffectedTargets (Summary (compare_loaded rangeOrder beforeData afterData))).
              line t \<in> set (drop (length (written output)) (written out)) \<longleftrightarrow>
              (\<exists>afterConfigs. map_of (TargetHashes afterData) t = Some afterConfigs \<and>
                 afterConfigs \<noteq> []) \<or> includeRemoved)"
proof -
  let ?ts = "AffectedTargets (Summary (compare_loaded rangeOrder beforeData afterData))"
  let ?keep = "\<lambda>t. AfterTargets (TargetHashes afterData) t \<or> includeRemoved"
  let ?keep' = "\<lambda>t. (\<exists>afterConfigs. map_of (TargetHashes afterData) t = Some afterConfigs \<and>
                         afterConfigs \<noteq> []) \<or> includeRemoved"
  have k: "?keep = ?keep'"
    by (rule ext) (simp add: AfterTargets_def split: option.splits)
  have le: "length (filter ?keep ?ts) \<le> room output"
    by (rule order_trans [OF length_filter_le assms(2)])
  let ?out = "\<lparr>written = written output @ map line (filter ?keep ?ts),
               room = room output - length (filter ?keep ?ts)\<rparr>"
  have 1: "outputTargetList stdout create (AfterTargets (TargetHashes afterData))
             (compare_loaded rangeOrder beforeData afterData) outputFile includeRemoved = Inr ?out"
    using assms(1) le by (simp add: outputTargetList_def write_targets_eq)
  have 2: "written ?out = written output @ map line (filter ?keep' ?ts)"
    by (simp add: k)
  have 3: "line t \<in> set (drop (length (written output)) (written ?out)) \<longleftrightarrow> ?keep' t"
    if "t \<in> set ?ts" for t
    using that by (auto simp: k line_inj)
  from 1 2 3 show ?thesis by blast
qed

theorem C5_label_list_witness:
  "outputTargetList ex_stdout (\<lambda>path. None) (AfterTargets (TargetHashes ex_before))
     (compare_loaded rev ex_after ex_before) '''' False =
     Inr \<lparr>written = [line ''//a:x''], room = 9\<rparr> \<and>
   outputTargetList ex_stdout (\<lambda>path. None) (AfterTargets (TargetHashes ex_before))
     (compare_loaded rev ex_after ex_before) '''' True =
     Inr \<lparr>written = [line ''//a:x'', line ''//b:y''], room = 8\<rparr>"
proof -
  have A: "AffectedTargets (Summary (compare_loaded rev ex_after ex_before)) =
           [''//a:x'', ''//b:y'']"
    by (simp add: Summary_compare_loaded compare_loops_def before_label_body_def
          after_label_body_def check_config_body_def added_config_body_def
          removed_entirely_body_def new_target_body_def emit_def ex_before_def ex_after_def)
  have r: "length (AffectedTargets (Summary (compare_loaded rev ex_after ex_before)))
             \<le> room ex_stdout"
    by (simp add: A ex_stdout_def)
  have o: "(if '''' = '''' then Some ex_stdout else (\<lambda>path. None) '''') = Some ex_stdout"
    by simp
  have AT: "AfterTargets (TargetHashes ex_before) = (\<lambda>t. t = ''//a:x'')"
    by (rule ext) (simp add: AfterTargets_def ex_before_def)
  from C5_label_list [OF o r, of False] C5_label_list [OF o r, of True]
  show ?thesis
    by (simp add: A AT outputTargetList_def write_targets_eq ex_stdout_def)
qed

text \<open>
  C6 as stated fails: a file holding the JSON object \<^verbatim>\<open>{}\<close> loads without an error, as a
  snapshot whose \<^verbatim>\<open>TargetHashes\<close> is empty and whose other fields are zero values.
\<close>

theorem C6_counterexample:
  "LoadPersistedHashes ex_fs ''empty.json'' =
     Inr \<lparr>GitCommitSha = '''', Timestamp = zero_time, BazelRelease = '''', TargetHashes = [],
          Metadata = \<lparr>TargetsPattern = '''', WorkspacePath = '''', TotalTargets = 0\<rparr>\<rparr>"
  by (simp add: LoadPersistedHashes_def ex_fs_def empty_object_def decode_document_def
        decode_metadata_def field_or_def)

text \<open>
  C6, as amended. \<^verbatim>\<open>LoadPersistedHashes\<close> returns an error exactly when the file cannot
  be opened or the decoder reports an error, an open error in the first case and a decode
  error in the second. A JSON object loads without an error whether or not it has a member
  for \<^verbatim>\<open>target_hashes\<close>: the returned snapshot holds the member's value, and the empty
  map when the member is missing.
\<close>

theorem C6_load_errors:
  "((\<exists>err. LoadPersistedHashes fs filePath = Inl err) \<longleftrightarrow>
      contents fs filePath = None \<or> contents fs filePath = Some Undecodable) \<and>
   (contents fs filePath = None \<longrightarrow>
      LoadPersistedHashes fs filePath = Inl (OpenError filePath)) \<and>
   (contents fs filePath = Some Undecodable \<longrightarrow>
      LoadPersistedHashes fs filePath = Inl (DecodeError filePath)) \<and>
   (\<forall>doc. contents fs filePath = Some (Document doc) \<longrightarrow>
      (\<exists>d. LoadPersistedHashes fs filePath = Inr d \<and>
           TargetHashes d = (case target_hashes doc of None \<Rightarrow> [] | Some m \<Rightarrow> m)))"
  by (auto simp: LoadPersistedHashes_def decode_document_def field_or_def
      split: option.splits file_content.splits)

theorem C6_load_errors_witness:
  "contents ex_fs ''missing.json'' = None \<and>
   LoadPersistedHashes ex_fs ''missing.json'' = Inl (OpenError ''missing.json'') \<and>
   contents ex_fs ''broken.json'' = Some Undecodable \<and>
   LoadPersistedHashes ex_fs ''broken.json'' = Inl (DecodeError ''broken.json'') \<and>
   contents ex_fs ''empty.json'' = Some (Document empty_object) \<and>
   (\<exists>d. LoadPersistedHashes ex_fs ''empty.json'' = Inr d \<and> TargetHashes d = [])"
proof -
  have c: "contents ex_fs ''missing.json'' = None"
    "contents ex_fs ''broken.json'' = Some Undecodable"
    "contents ex_fs ''empty.json'' = Some (Document empty_object)"
    by (simp_all add: ex_fs_def)
  have t: "target_hashes empty_object = None" by (simp add: empty_object_def)
  from C6_load_errors [of ex_fs "''missing.json''"] C6_load_errors [of ex_fs "''broken.json''"]
    C6_load_errors [of ex_fs "''empty.json''"] c t
  show ?thesis by auto
qed

text \<open>
  C8. The order in which the maps are visited does not matter: when the two before files
  hold the same mapping and the two after files hold the same mapping, the two comparisons
  have the same Difference Records up to their order, and the same summary (the three
  counts and the sorted affected labels), whatever order the runtime picks for the set of
  affected labels.
\<close>

theorem C8_order_independent:
  assumes "wf_hashes (TargetHashes beforeData)" and "wf_hashes (TargetHashes afterData)"
    and "wf_hashes (TargetHashes beforeData')" and "wf_hashes (TargetHashes afterData')"
    and "hashes_map (TargetHashes beforeData') = hashes_map (TargetHashes beforeData)"
    and "hashes_map (TargetHashes afterData') = hashes_map (TargetHashes afterData)"
    and "is_range_order rangeOrder" and "is_range_order rangeOrder'"
  shows "mset (Differences (compare_loaded rangeOrder' beforeData' afterData')) =
           mset (Differences (compare_loaded rangeOrder beforeData afterData)) \<and>
         Summary (compare_loaded rangeOrder' beforeData' afterData') =
           Summary (compare_loaded rangeOrder beforeData afterData)"
proof -
  let ?b = "TargetHashes beforeData" and ?a = "TargetHashes afterData"
  let ?b' = "TargetHashes beforeData'" and ?a' = "TargetHashes afterData'"
  let ?r = "compare_loaded rangeOrder beforeData afterData"
  let ?r' = "compare_loaded rangeOrder' beforeData' afterData'"
  have s: "set (all_recs ?b' ?a') = set (all_recs ?b ?a)"
    using assms(1-6) by (rule set_all_recs_cong)
  have d: "distinct (all_recs ?b ?a)" "distinct (all_recs ?b' ?a')"
    using assms(1-4) by (simp_all add: distinct_all_recs)
  from s d have m: "mset (all_recs ?b' ?a') = mset (all_recs ?b ?a)"
    by (simp add: set_eq_iff_mset_eq_distinct)
  have len: "length (filter P (all_recs ?b' ?a')) = length (filter P (all_recs ?b ?a))" for P
  proof -
    have "size (filter_mset P (mset (all_recs ?b' ?a'))) =
          size (filter_mset P (mset (all_recs ?b ?a)))"
      by (simp only: m)
    then show ?thesis by (simp only: mset_filter [symmetric] size_mset)
  qed
  have aff: "AffectedTargets (Summary ?r') = AffectedTargets (Summary ?r)"
  proof (rule sorted_distinct_set_unique)
    show "sorted (AffectedTargets (Summary ?r'))" "distinct (AffectedTargets (Summary ?r'))"
      using assms(8) by (rule AffectedTargets_props)+
    show "sorted (AffectedTargets (Summary ?r))" "distinct (AffectedTargets (Summary ?r))"
      using assms(7) by (rule AffectedTargets_props)+
    show "set (AffectedTargets (Summary ?r')) = set (AffectedTargets (Summary ?r))"
      by (simp only: AffectedTargets_props(3) [OF assms(7)]
            AffectedTargets_props(3) [OF assms(8)] s)
  qed
  have "Summary ?r' = Summary ?r"
    by (rule HashComparisonSummary.equality)
       (simp_all only: Summary_compare_loaded(1-3) len aff, simp)
  with m show ?thesis by (simp only: Differences_compare_loaded)
qed

theorem C8_order_independent_witness:
  "wf_hashes (TargetHashes ex_after) \<and> wf_hashes (TargetHashes ex_after_reordered) \<and>
   TargetHashes ex_after_reordered \<noteq> TargetHashes ex_after \<and>
   hashes_map (TargetHashes ex_after_reordered) = hashes_map (TargetHashes ex_after) \<and>
   mset (Differences (compare_loaded (\<lambda>ks. ks) ex_before ex_after_reordered)) =
     mset (Differences (compare_loaded rev ex_before ex_after)) \<and>
   Summary (compare_loaded (\<lambda>ks. ks) ex_before ex_after_reordered) =
     Summary (compare_loaded rev ex_before ex_after)"
proof -
  have w: "wf_hashes (TargetHashes ex_after_reordered)"
    by (simp add: wf_hashes_def ex_after_reordered_def)
  have h: "hashes_map (TargetHashes ex_after_reordered) = hashes_map (TargetHashes ex_after)"
    by (rule ext) (simp add: hashes_map_def ex_after_reordered_def ex_after_def)
  have n: "TargetHashes ex_after_reordered \<noteq> TargetHashes ex_after"
    by (simp add: ex_after_reordered_def ex_after_def)
  from C8_order_independent [OF ex_wf(1) ex_wf(2) ex_wf(1) w refl h
      is_range_order_rev is_range_order_id] w h n ex_wf(2)
  show ?thesis by simp
qed

text \<open>
  C9. \<^verbatim>\<open>CompareHashFiles\<close> returns an error exactly when loading the before file or
  loading the after file returns one; when both files load, it returns the comparison of
  the two loaded snapshots and no error.
\<close>

theorem C9_compare_errors:
  "((\<exists>err. CompareHashFiles rangeOrder fs beforeFile afterFile = Inl err) \<longleftrightarrow>
      (\<exists>err. LoadPersistedHashes fs beforeFile = Inl err) \<or>
      (\<exists>err. LoadPersistedHashes fs afterFile = Inl err)) \<and>
   (\<forall>beforeData afterData.
      LoadPersistedHashes fs beforeFile = Inr beforeData \<and>
      LoadPersistedHashes fs afterFile = Inr afterData \<longrightarrow>
      CompareHashFiles rangeOrder fs beforeFile afterFile =
        Inr (compare_loaded rangeOrder beforeData afterData))"
  by (auto simp: CompareHashFiles_def split: sum.splits)

theorem C9_compare_errors_witness:
  "LoadPersistedHashes ex_fs ''before.json'' = Inr ex_before \<and>
   LoadPersistedHashes ex_fs ''after.json'' = Inr ex_after \<and>
   CompareHashFiles rev ex_fs ''before.json'' ''after.json'' =
     Inr (compare_loaded rev ex_before ex_after) \<and>
   (\<exists>err. LoadPersistedHashes ex_fs ''broken.json'' = Inl err) \<and>
   (\<exists>err. CompareHashFiles rev ex_fs ''before.json'' ''broken.json'' = Inl err)"
  using C9_compare_errors [of rev ex_fs "''before.json''" "''after.json''"]
    C9_compare_errors [of rev ex_fs "''before.json''" "''broken.json''"]
    LoadPersistedHashes_ex
  by auto

text \<open>
  C10. When every configuration of every label has a hash and the file can be created and
  written, \<^verbatim>\<open>PersistHashes\<close> returns no error and writes a document whose
  \<^verbatim>\<open>TotalTargets\<close> is the number of configurations summed over the labels: one for each
  (label, configuration) pair, several for a label with several configurations and none
  for a label without configurations. When moreover the labels and the configurations of
  each label have pairwise distinct texts, the written hash map has one entry of hashes for
  each label, and \<^verbatim>\<open>TotalTargets\<close> is the number of hashes in it.
\<close>

theorem C10_total_targets:
  assumes "hashes_available queryResults"
    and "creatable fs filePath" and "storable fs filePath"
  shows "\<exists>d. PersistHashes fs now filePath gitCommitSha queryResults workspacePath targetsPattern =
              (None, fs\<lparr>contents := (contents fs)(filePath \<mapsto> Document (encode_document d))\<rparr>) \<and>
            TotalTargets (Metadata d) =
              (\<Sum>label\<leftarrow>Labels queryResults.
                 int (length (ConfigurationsFor queryResults label))) \<and>
            (strings_distinct queryResults \<longrightarrow>
               TargetHashes d = map (hash_entry queryResults) (Labels queryResults) \<and>
               TotalTargets (Metadata d) =
                 (\<Sum>(label, configs)\<leftarrow>TargetHashes d. int (length configs)))"
proof -
  let ?n = "\<Sum>label\<leftarrow>Labels queryResults. int (length (ConfigurationsFor queryResults label))"
  from assms(1) obtain th where
    th: "persist_labels queryResults (Labels queryResults) ([], 0) = Inr (th, ?n)"
    using persist_labels_count [of queryResults "Labels queryResults" "[]" 0]
    by (auto simp: hashes_available_def)
  let ?d = "\<lparr>GitCommitSha = gitCommitSha, Timestamp = now,
            BazelRelease = QueryBazelRelease queryResults, TargetHashes = th,
            Metadata = \<lparr>TargetsPattern = targetsPattern, WorkspacePath = workspacePath,
                        TotalTargets = ?n\<rparr>\<rparr>"
  have 1: "PersistHashes fs now filePath gitCommitSha queryResults workspacePath targetsPattern =
             (None, fs\<lparr>contents := (contents fs)(filePath \<mapsto> Document (encode_document ?d))\<rparr>)"
    using th assms(2,3) by (simp add: PersistHashes_def)
  have 2: "th = map (hash_entry queryResults) (Labels queryResults)"
    if "strings_distinct queryResults"
    using persist_labels_exact [of queryResults "Labels queryResults" "[]" 0] that th assms(1)
    by (simp add: strings_distinct_def hashes_available_def)
  have 3: "?n = (\<Sum>(label, configs)\<leftarrow>th. int (length configs))"
    if "strings_distinct queryResults"
    by (simp only: 2 [OF that] sum_hash_entries)
  have "TotalTargets (Metadata ?d) = ?n \<and>
        (strings_distinct queryResults \<longrightarrow>
           TargetHashes ?d = map (hash_entry queryResults) (Labels queryResults) \<and>
           TotalTargets (Metadata ?d) =
             (\<Sum>(label, configs)\<leftarrow>TargetHashes ?d. int (length configs)))"
    using 2 3 by simp
  with 1 show ?thesis by blast
qed

theorem C10_total_targets_witness:
  "hashes_available ex_query \<and> strings_distinct ex_query \<and>
   length (Labels ex_query) = 3 \<and>
   (\<exists>d. PersistHashes ex_fs 5 ''out.json'' ''c0ffee'' ex_query ''/w'' ''//...'' =
          (None, ex_fs\<lparr>contents := (contents ex_fs)(''out.json'' \<mapsto> Document (encode_document d))\<rparr>) \<and>
        TotalTargets (Metadata d) = 3 \<and>
        TargetHashes d =
          [(''//a:x'', [(''c1'', ''ab''), (''c2'', ''ab'')]), (''//b:y'', []),
           (''//c:z'', [(''c1'', ''ab'')])])"
proof -
  have a: "hashes_available ex_query"
    by (simp add: hashes_available_def ex_query_def)
  have s: "strings_distinct ex_query"
    by (simp add: strings_distinct_def ex_query_def)
  have c: "creatable ex_fs ''out.json''" "storable ex_fs ''out.json''"
    by (simp_all add: ex_fs_def)
  have n: "(\<Sum>label\<leftarrow>Labels ex_query. int (length (ConfigurationsFor ex_query label))) = 3"
    by (simp add: ex_query_def)
  have e: "map (hash_entry ex_query) (Labels ex_query) =
          [(''//a:x'', [(''c1'', ''ab''), (''c2'', ''ab'')]), (''//b:y'', []),
           (''//c:z'', [(''c1'', ''ab'')])]"
    by (simp add: hash_entry_def ex_query_def EncodeToString_def hex_digit_def)
  have l: "length (Labels ex_query) = 3" by (simp add: ex_query_def)
  from C10_total_targets [OF a c, of 5 "''c0ffee''" "''/w''" "''//...''"] a s l
  show ?thesis by (simp only: n e) blast
qed

end
